theory Spec2Isabelle
  imports Main "HOL-Library.Word"
begin

section \<open>The Linn file system server: data model\<close>

text \<open>
  The development follows \<^verbatim>\<open>srv/filesystem/linn/LinnFileSystem.cpp\<close>: the block address
  translator \<^verbatim>\<open>getOffset\<close>, the inode loader \<^verbatim>\<open>getInode\<close> with its cache, and the path
  resolver \<^verbatim>\<open>lookupFile\<close> over the tree of \<^verbatim>\<open>FileCache\<close> nodes.

  Unsigned 64-bit quantities (\<^verbatim>\<open>u64\<close>) are 64-bit words, so that subtraction and
  multiplication wrap as they do in the program. \<^verbatim>\<open>Error\<close> is a signed integer.
  Objects live in arenas: a pointer is an index into the list of objects of its class,
  \<^verbatim>\<open>new LinnInode\<close> appends to the list of inode objects, and a pointer outside the
  list addresses no object.
  Where the program can hold a null pointer (the result of a lookup in a hash table,
  the value a function returns), the model has an optional pointer.
\<close>

type_synonym u64 = "64 word"
type_synonym Error = int
type_synonym ptr = nat

text \<open>
  Behaviour that C++ leaves undefined is a value of the model: indexing outside an
  array, dividing by zero, and dereferencing a pointer that addresses no object.
\<close>

datatype fault = OutOfBounds | DivisionByZero | BadPointer

text \<open>
  The headers are not part of the sources at hand, so what they declare is a parameter:
  the number of direct block pointers of an inode, the size of one block pointer on
  disk, the size of an inode record, and the width in bits of the type \<^verbatim>\<open>Size\<close>.
\<close>

record LinnConsts =
  LINN_INODE_DIR_BLOCKS :: u64
  pointerSize :: u64
  sizeofLinnInode :: u64
  sizeBits :: nat

text \<open>The fields of the superblock that the constructor and the three operations read.
  The header that gives their widths is not part of the sources; they are taken as
  unsigned 64-bit values, the type of every quantity they are combined with.\<close>

record LinnSuperBlock =
  magic0 :: u64
  magic1 :: u64
  blockSize :: u64
  inodesCount :: u64
  freeInodesCount :: u64
  blocksCount :: u64
  freeBlocksCount :: u64
  groupsTable :: u64
  inodesPerGroup :: u64

record LinnGroup =
  inodeTable :: u64

datatype FileType = RegularFile | DirectoryFile | OtherFile

text \<open>An inode: its type tag and the array of block pointers (direct ones first, then
  the single, double and triple indirect pointer).\<close>

record LinnInode =
  itype :: FileType
  block :: "u64 list"

record LinnDirectoryEntry =
  inode :: u64

text \<open>
  What happens during a call is logged: every \<^verbatim>\<open>storage->read(offset, _, size)\<close>, every
  indexing of the pointer block buffer in \<^verbatim>\<open>getOffset\<close>, and every call of
  \<^verbatim>\<open>getEntry\<close> on a directory (given by the pointer to its inode).
\<close>

datatype event = Read u64 u64 | Slot u64 | GetEntry ptr string

text \<open>
  Modelled from the spec: the storage device answers \<^verbatim>\<open>read(offset, buffer, size)\<close> with
  the number of bytes read or a negative error code (the class \<^verbatim>\<open>Storage\<close> is declared
  outside this file). A read of a block of pointers gives the result code and the
  contents of the buffer after the call (entry \<open>i\<close> of the buffer is the function's value
  at \<open>i\<close>), a read of an inode record the result code and the record.
  \<^verbatim>\<open>LinnDirectory::getEntry\<close>, also outside this file, is a function of the directory's
  inode and the name: the entry when it answers \<^verbatim>\<open>ESUCCESS\<close>.
\<close>

record Storage =
  readPtrs :: "u64 \<Rightarrow> u64 \<Rightarrow> Error \<times> (nat \<Rightarrow> u64)"
  readInode :: "u64 \<Rightarrow> u64 \<Rightarrow> Error \<times> LinnInode"
  getEntry :: "LinnInode \<Rightarrow> string \<Rightarrow> LinnDirectoryEntry option"

text \<open>The two kinds of file object this server creates, each holding its inode pointer.\<close>

datatype File = LinnDirectory ptr | LinnFile ptr

fun fileInode :: "File \<Rightarrow> ptr" where
  "fileInode (LinnDirectory p) = p"
| "fileInode (LinnFile p) = p"

text \<open>Modelled from the spec: the wrapper's type is that of the variant (the classes
  \<^verbatim>\<open>LinnDirectory\<close> and \<^verbatim>\<open>LinnFile\<close> are declared outside this file).\<close>

fun getType :: "File \<Rightarrow> FileType" where
  "getType (LinnDirectory _) = DirectoryFile"
| "getType (LinnFile _) = RegularFile"

text \<open>
  Modelled from the spec: the two hash tables (the children of a \<^verbatim>\<open>FileCache\<close> node by
  name, the cached inodes by number) are mappings from the key to the pointer stored
  under it. Looking a key up gives that pointer or null, and \<^verbatim>\<open>insert\<close> stores one
  (the class \<^verbatim>\<open>HashTable\<close> is defined outside this file).
\<close>

record FileCache =
  cfile :: File
  entries :: "string \<rightharpoonup> ptr"

record LinnFileSystem =
  storage :: Storage
  super :: LinnSuperBlock
  groups :: "LinnGroup list"
  inodes :: "u64 \<rightharpoonup> ptr"
  inodeObjs :: "LinnInode list"
  cacheObjs :: "FileCache list"
  root :: ptr
  log :: "event list"

section \<open>Block address translation\<close>

text \<open>Modelled from the spec: \<^verbatim>\<open>LINN_SUPER_NUM_PTRS\<close> is the block size divided by the
  size of a pointer (the macro is defined outside this file).\<close>

definition LINN_SUPER_NUM_PTRS :: "LinnConsts \<Rightarrow> LinnSuperBlock \<Rightarrow> u64" where
  "LINN_SUPER_NUM_PTRS k sb = blockSize sb div pointerSize k"

text \<open>A value stored in a variable of type \<^verbatim>\<open>Size\<close> keeps its low \<open>sizeBits\<close> bits.\<close>

definition toSize :: "LinnConsts \<Rightarrow> u64 \<Rightarrow> u64" where
  "toSize k x = take_bit (sizeBits k) x"

text \<open>Reading an array of known length.\<close>

definition at :: "'a list \<Rightarrow> nat \<Rightarrow> fault + 'a" where
  "at xs i = (if i < length xs then Inr (xs ! i) else Inl OutOfBounds)"

text \<open>Following a pointer into the arena of its class.\<close>

definition deref :: "'a list \<Rightarrow> ptr \<Rightarrow> fault + 'a" where
  "deref objs p = (if p < length objs then Inr (objs ! p) else Inl BadPointer)"

text \<open>The choice of the depth (the chain of tests after the direct blocks).\<close>

definition getDepth :: "LinnConsts \<Rightarrow> LinnSuperBlock \<Rightarrow> u64 \<Rightarrow> nat" where
  "getDepth k sb blk =
     (let numPerBlock = LINN_SUPER_NUM_PTRS k sb in
      if blk - LINN_INODE_DIR_BLOCKS k < numPerBlock then 1
      else if blk - LINN_INODE_DIR_BLOCKS k < numPerBlock * numPerBlock then 2
      else 3)"

text \<open>The inner loop \<^verbatim>\<open>for (i = 0; i < depth - 1; i++) remain *= remain\<close>, in the
  arithmetic of \<^verbatim>\<open>Size\<close>; the first argument is the number of rounds.\<close>

fun powLoop :: "LinnConsts \<Rightarrow> nat \<Rightarrow> u64 \<Rightarrow> u64" where
  "powLoop k 0 remain = remain"
| "powLoop k (Suc n) remain = powLoop k n (toSize k (remain * remain))"

text \<open>The index \<^verbatim>\<open>remain / (blk - LINN_INODE_DIR_BLOCKS + 1)\<close> that the loop uses at a
  given depth (the divisor is not zero where it is used).\<close>

definition loopSlot :: "LinnConsts \<Rightarrow> LinnSuperBlock \<Rightarrow> nat \<Rightarrow> u64 \<Rightarrow> u64" where
  "loopSlot k sb depth blk =
     powLoop k (depth - 1) (toSize k (LINN_SUPER_NUM_PTRS k sb))
       div (blk - LINN_INODE_DIR_BLOCKS k + 1)"

text \<open>
  The \<^verbatim>\<open>while (depth > 0)\<close> loop and the final computation. The arguments are the depth
  left, the current offset and the buffer; the result is the value returned and the
  events in order. A read that fails ends the call with 0.
\<close>

fun walk :: "LinnConsts \<Rightarrow> Storage \<Rightarrow> LinnSuperBlock \<Rightarrow> u64 \<Rightarrow> nat \<Rightarrow> u64 \<Rightarrow> (nat \<Rightarrow> u64)
    \<Rightarrow> (fault + u64) \<times> event list" where
  "walk k st sb blk 0 offset buf =
     (let n = LINN_SUPER_NUM_PTRS k sb in
      if n = 0 then (Inl DivisionByZero, [])
      else let slot = (blk - LINN_INODE_DIR_BLOCKS k) mod n in
           (Inr (buf (unat slot) * blockSize sb), [Slot slot]))"
| "walk k st sb blk (Suc d) offset buf =
     (case readPtrs st offset (blockSize sb) of (e, buf') \<Rightarrow>
        if e < 0 then (Inr 0, [Read offset (blockSize sb)])
        else if blk - LINN_INODE_DIR_BLOCKS k + 1 = 0
        then (Inl DivisionByZero, [Read offset (blockSize sb)])
        else let slot = loopSlot k sb (Suc d) blk in
          if \<not> slot < LINN_SUPER_NUM_PTRS k sb
          then (Inl OutOfBounds, [Read offset (blockSize sb), Slot slot])
          else (case walk k st sb blk d (buf' (unat slot) * blockSize sb) buf' of
                  (r, evs) \<Rightarrow> (r, Read offset (blockSize sb) # Slot slot # evs)))"

text \<open>
  \<^verbatim>\<open>getOffset\<close>. The fresh buffer is never read before the first storage read has
  filled it, so its initial contents do not matter.
\<close>

definition getOffset :: "LinnConsts \<Rightarrow> Storage \<Rightarrow> LinnSuperBlock \<Rightarrow> LinnInode \<Rightarrow> u64
    \<Rightarrow> (fault + u64) \<times> event list" where
  "getOffset k st sb ino blk =
     (if blk < LINN_INODE_DIR_BLOCKS k
      then (case at (block ino) (unat blk) of
              Inl f \<Rightarrow> (Inl f, [])
            | Inr b \<Rightarrow> (Inr (b * blockSize sb), []))
      else let depth = getDepth k sb blk in
           (case at (block ino) (unat (LINN_INODE_DIR_BLOCKS k) + depth - 1) of
              Inl f \<Rightarrow> (Inl f, [])
            | Inr b \<Rightarrow> walk k st sb blk depth (b * blockSize sb) (\<lambda>_. 0)))"

section \<open>The inode cache\<close>

text \<open>Modelled from the spec: the array of group descriptors is indexed by the group
  number, and an index outside it gives no descriptor (the class \<^verbatim>\<open>Array\<close> is defined
  outside this file).\<close>

definition getGroup :: "LinnFileSystem \<Rightarrow> u64 \<Rightarrow> LinnGroup option" where
  "getGroup fs groupNum =
     (if unat groupNum < length (groups fs) then Some (groups fs ! unat groupNum) else None)"

definition getGroupByInode :: "LinnFileSystem \<Rightarrow> u64 \<Rightarrow> fault + LinnGroup option" where
  "getGroupByInode fs inodeNum =
     (if inodesPerGroup (super fs) = 0 then Inl DivisionByZero
      else Inr (getGroup fs ((inodeNum - 1) div inodesPerGroup (super fs))))"

text \<open>
  \<^verbatim>\<open>getInode\<close>. The cache \<^verbatim>\<open>inodes\<close> maps an inode number to the pointer stored for it.
  The new inode object is allocated before the read and stays allocated when the read
  fails. A read fails when its result is zero or negative.
\<close>

definition getInode :: "LinnConsts \<Rightarrow> LinnFileSystem \<Rightarrow> u64
    \<Rightarrow> (fault + ptr option) \<times> LinnFileSystem" where
  "getInode k fs inodeNum =
     (if inodeNum \<ge> inodesCount (super fs) then (Inr None, fs)
      else case inodes fs inodeNum of
        Some p \<Rightarrow> (Inr (Some p), fs)
      | None \<Rightarrow>
         (case getGroupByInode fs inodeNum of
            Inl f \<Rightarrow> (Inl f, fs)
          | Inr None \<Rightarrow> (Inr None, fs)
          | Inr (Some grp) \<Rightarrow>
             (let p = length (inodeObjs fs);
                  offset = toSize k (inodeTable grp * blockSize (super fs)
                                       + inodeNum mod inodesPerGroup (super fs))
              in case readInode (storage fs) offset (sizeofLinnInode k) of (e, data) \<Rightarrow>
                 (let fs1 = fs\<lparr>inodeObjs := inodeObjs fs @ [data],
                                log := log fs @ [Read offset (sizeofLinnInode k)]\<rparr>
                  in if e \<le> 0 then (Inr None, fs1)
                     else (Inr (Some p), fs1\<lparr>inodes := (inodes fs1)(inodeNum \<mapsto> p)\<rparr>)))))"

section \<open>The file cache and path resolution\<close>

text \<open>
  \<^verbatim>\<open>insertFileCache\<close> belongs to the base class \<^verbatim>\<open>FileSystem\<close>, which is not part of the
  sources. \<^verbatim>\<open>lookupFile\<close> calls it with the new file object and the name of the
  component, and the callee has the file system object; the current node of the loop
  is a local variable of \<^verbatim>\<open>lookupFile\<close> and is not passed. The callee is therefore a
  parameter of the model: any function of the state, the file and the name that
  returns a node and the state it leaves.
\<close>

type_synonym InsertFileCache = "LinnFileSystem \<Rightarrow> File \<Rightarrow> string \<Rightarrow> ptr \<times> LinnFileSystem"

text \<open>
  The body of the loop of \<^verbatim>\<open>lookupFile\<close> for a name that the current node \<open>c\<close> has no
  entry for: the directory test, \<^verbatim>\<open>getEntry\<close>, \<^verbatim>\<open>getInode\<close> and the switch on the type
  of the inode, where the node that \<^verbatim>\<open>insertFileCache\<close> returns becomes the current
  node. The result is the new current node, or none when the lookup fails.
\<close>

definition resolve :: "InsertFileCache \<Rightarrow> LinnConsts \<Rightarrow> LinnFileSystem \<Rightarrow> ptr \<Rightarrow> string
    \<Rightarrow> (fault + ptr option) \<times> LinnFileSystem" where
  "resolve insertFileCache k fs c name =
     (if getType (cfile (cacheObjs fs ! c)) \<noteq> DirectoryFile then (Inr None, fs)
      else let dp = fileInode (cfile (cacheObjs fs ! c)) in
         (case deref (inodeObjs fs) dp of
            Inl f \<Rightarrow> (Inl f, fs)
          | Inr dirInode \<Rightarrow>
             (let fs1 = fs\<lparr>log := log fs @ [GetEntry dp name]\<rparr>
              in case getEntry (storage fs) dirInode name of
                None \<Rightarrow> (Inr None, fs1)
              | Some entry \<Rightarrow>
                 (case getInode k fs1 (inode entry) of
                    (Inl f, fs2) \<Rightarrow> (Inl f, fs2)
                  | (Inr None, fs2) \<Rightarrow> (Inr None, fs2)
                  | (Inr (Some p), fs2) \<Rightarrow>
                     (case deref (inodeObjs fs2) p of
                        Inl f \<Rightarrow> (Inl f, fs2)
                      | Inr ino \<Rightarrow>
                         (case itype ino of
                            DirectoryFile \<Rightarrow>
                              (case insertFileCache fs2 (LinnDirectory p) name of
                                 (d, fs3) \<Rightarrow> (Inr (Some d), fs3))
                          | RegularFile \<Rightarrow>
                              (case insertFileCache fs2 (LinnFile p) name of
                                 (d, fs3) \<Rightarrow> (Inr (Some d), fs3))
                          | OtherFile \<Rightarrow> (Inr None, fs2)))))))"

text \<open>The loop over the components of the path, from the current node \<open>c\<close>.\<close>

fun lookupLoop :: "InsertFileCache \<Rightarrow> LinnConsts \<Rightarrow> LinnFileSystem \<Rightarrow> ptr \<Rightarrow> string list
    \<Rightarrow> (fault + ptr option) \<times> LinnFileSystem" where
  "lookupLoop ins k fs c [] = (Inr (Some c), fs)"
| "lookupLoop ins k fs c (name # rest) =
     (if \<not> c < length (cacheObjs fs) then (Inl BadPointer, fs)
      else case entries (cacheObjs fs ! c) name of
        Some d \<Rightarrow> lookupLoop ins k fs d rest
      | None \<Rightarrow>
         (case resolve ins k fs c name of
            (Inr (Some d), fs1) \<Rightarrow> lookupLoop ins k fs1 d rest
          | (r, fs1) \<Rightarrow> (r, fs1)))"

text \<open>\<^verbatim>\<open>lookupFile\<close>: the path is given by its components, as \<^verbatim>\<open>split\<close> returns them.\<close>

definition lookupFile :: "InsertFileCache \<Rightarrow> LinnConsts \<Rightarrow> LinnFileSystem \<Rightarrow> string list
    \<Rightarrow> (fault + ptr option) \<times> LinnFileSystem" where
  "lookupFile ins k fs path = lookupLoop ins k fs (root fs) path"

section \<open>Reference definitions\<close>

text \<open>
  The addressing that the specification describes, written from its words and kept apart
  from the program: the depth by contiguous ranges (the next \<open>n\<close> indices after the
  direct ones, the next \<open>n\<^sup>2\<close>, the rest), the first index of each range, and the slot at
  a level as the digit, in base \<open>n\<close>, of the index relative to the start of its range.
  The level counts the blocks still to read: it is the depth at the top block and 1 at
  the block that holds the pointers to the data.
\<close>

definition spec_depth :: "LinnConsts \<Rightarrow> LinnSuperBlock \<Rightarrow> u64 \<Rightarrow> nat" where
  "spec_depth k sb blk =
     (let n = unat (LINN_SUPER_NUM_PTRS k sb);
          r = unat blk - unat (LINN_INODE_DIR_BLOCKS k)
      in if r < n then 1 else if r < n + n * n then 2 else 3)"

definition spec_base :: "LinnConsts \<Rightarrow> LinnSuperBlock \<Rightarrow> nat \<Rightarrow> nat" where
  "spec_base k sb depth =
     (let n = unat (LINN_SUPER_NUM_PTRS k sb);
          d = unat (LINN_INODE_DIR_BLOCKS k)
      in if depth = 1 then d else if depth = 2 then d + n else d + n + n * n)"

definition spec_slot :: "LinnConsts \<Rightarrow> LinnSuperBlock \<Rightarrow> nat \<Rightarrow> nat \<Rightarrow> u64 \<Rightarrow> nat" where
  "spec_slot k sb depth level blk =
     ((unat blk - spec_base k sb depth) div unat (LINN_SUPER_NUM_PTRS k sb) ^ (level - 1))
        mod unat (LINN_SUPER_NUM_PTRS k sb)"

text \<open>The storage reads among the events of a call.\<close>

fun isRead :: "event \<Rightarrow> bool" where
  "isRead (Read _ _) = True"
| "isRead _ = False"

definition storageReads :: "event list \<Rightarrow> nat" where
  "storageReads evs = length (filter isRead evs)"

text \<open>
  The insertion that the specification describes for a component that is resolved: a
  new node without children is entered under the name as a child of the current node
  \<open>c\<close>, and is the result.
\<close>

definition spec_insertFileCache :: "LinnFileSystem \<Rightarrow> ptr \<Rightarrow> File \<Rightarrow> string
    \<Rightarrow> ptr \<times> LinnFileSystem" where
  "spec_insertFileCache fs c f name =
     (let p = length (cacheObjs fs);
          parent = cacheObjs fs ! c
      in (p, fs\<lparr>cacheObjs :=
                  (cacheObjs fs)[c := parent\<lparr>entries := (entries parent)(name \<mapsto> p)\<rparr>]
                    @ [\<lparr>cfile = f, entries = Map.empty\<rparr>]\<rparr>))"


text \<open>A file cache in which only directories have children, and one whose root is
  moreover a directory node.\<close>

definition filesAreLeaves :: "LinnFileSystem \<Rightarrow> bool" where
  "filesAreLeaves fs =
     list_all (\<lambda>nd. getType (cfile nd) = DirectoryFile \<or> entries nd = Map.empty)
       (cacheObjs fs)"

definition wellRooted :: "LinnFileSystem \<Rightarrow> bool" where
  "wellRooted fs =
     (filesAreLeaves fs \<and> root fs < length (cacheObjs fs)
      \<and> getType (cfile (cacheObjs fs ! root fs)) = DirectoryFile)"

section \<open>A sample volume\<close>

text \<open>
  Blocks of 2048 bytes and pointers of 8 bytes, hence 256 pointers in a block; four
  direct pointers in an inode; \<^verbatim>\<open>Size\<close> of 32 bits. Every pointer block on the sample
  device holds the block number \<open>100 + i\<close> in its slot \<open>i\<close>. The root directory has the
  entries \<^verbatim>\<open>bin\<close> (a directory, inode 2), \<^verbatim>\<open>motd\<close> (a regular file, inode 3), \<^verbatim>\<open>tty\<close> (inode
  4, of another type) and \<^verbatim>\<open>bad\<close> (inode 5, whose record cannot be read); \<^verbatim>\<open>bin\<close> has
  the entry \<^verbatim>\<open>ls\<close> (the same file as \<^verbatim>\<open>motd\<close>). Only the root is cached at the start.
\<close>

definition exConsts :: LinnConsts where
  "exConsts = \<lparr>LINN_INODE_DIR_BLOCKS = 4, pointerSize = 8, sizeofLinnInode = 128,
                sizeBits = 32\<rparr>"

definition exSuper :: LinnSuperBlock where
  "exSuper = \<lparr>magic0 = 0, magic1 = 0, blockSize = 2048, inodesCount = 64,
               freeInodesCount = 0, blocksCount = 1048576, freeBlocksCount = 0,
               groupsTable = 1, inodesPerGroup = 32\<rparr>"

definition exRootInode :: LinnInode where
  "exRootInode = \<lparr>itype = DirectoryFile, block = [10, 0, 0, 0, 0, 0, 0]\<rparr>"

definition exBinInode :: LinnInode where
  "exBinInode = \<lparr>itype = DirectoryFile, block = [11, 0, 0, 0, 0, 0, 0]\<rparr>"

definition exInode :: LinnInode where
  "exInode = \<lparr>itype = RegularFile, block = [12, 13, 14, 15, 20, 30, 40]\<rparr>"

definition exDevInode :: LinnInode where
  "exDevInode = \<lparr>itype = OtherFile, block = [0, 0, 0, 0, 0, 0, 0]\<rparr>"

definition exStorage :: Storage where
  "exStorage =
     \<lparr>readPtrs = (\<lambda>off len. (uint len, \<lambda>i. of_nat i + 100)),
      readInode = (\<lambda>off len.
         if off = 4098 then (uint len, exBinInode)
         else if off = 4099 then (uint len, exInode)
         else if off = 4100 then (uint len, exDevInode)
         else (- 5, exDevInode)),
      getEntry = (\<lambda>dir name.
         if dir = exRootInode \<and> name = ''bin'' then Some \<lparr>inode = 2\<rparr>
         else if dir = exRootInode \<and> name = ''motd'' then Some \<lparr>inode = 3\<rparr>
         else if dir = exRootInode \<and> name = ''tty'' then Some \<lparr>inode = 4\<rparr>
         else if dir = exRootInode \<and> name = ''bad'' then Some \<lparr>inode = 5\<rparr>
         else if dir = exBinInode \<and> name = ''ls'' then Some \<lparr>inode = 3\<rparr>
         else None)\<rparr>"

text \<open>The same device, except that the block at byte offset 727040 cannot be read.\<close>

definition exFailingStorage :: Storage where
  "exFailingStorage =
     exStorage\<lparr>readPtrs := (\<lambda>off len.
        if off = 727040 then (- 5, \<lambda>i. 0) else readPtrs exStorage off len)\<rparr>"

definition exFs :: LinnFileSystem where
  "exFs = \<lparr>storage = exStorage, super = exSuper,
            groups = [\<lparr>inodeTable = 2\<rparr>, \<lparr>inodeTable = 3\<rparr>],
            inodes = [1 \<mapsto> 0], inodeObjs = [exRootInode],
            cacheObjs = [\<lparr>cfile = LinnDirectory 0, entries = Map.empty\<rparr>],
            root = 0, log = []\<rparr>"

text \<open>
  A sample \<^verbatim>\<open>insertFileCache\<close>, one that can be written with what the call gives it: it
  creates a node that wraps the file and has no children, and enters it under the
  given name as a child of the root, the one node it reaches from the file system
  object. It stands for no more than that: the function of the program is outside
  the sources.
\<close>

definition exInsertFileCache :: InsertFileCache where
  "exInsertFileCache fs f name =
     (let p = length (cacheObjs fs);
          parent = cacheObjs fs ! root fs
      in (p, fs\<lparr>cacheObjs :=
                  (cacheObjs fs)[root fs := parent\<lparr>entries := (entries parent)(name \<mapsto> p)\<rparr>]
                    @ [\<lparr>cfile = f, entries = Map.empty\<rparr>]\<rparr>))"

lemmas ex_defs = exConsts_def exSuper_def exStorage_def exFailingStorage_def exFs_def
  exRootInode_def exBinInode_def exInode_def exDevInode_def

section \<open>Block address translation: results\<close>

lemma walk_2: "walk k st sb blk 2 = walk k st sb blk (Suc (Suc 0))"
  by (simp add: numeral_2_eq_2)

lemma walk_3: "walk k st sb blk 3 = walk k st sb blk (Suc (Suc (Suc 0)))"
  by (simp add: numeral_3_eq_3)

lemmas off_defs = getOffset_def getDepth_def LINN_SUPER_NUM_PTRS_def at_def loopSlot_def
  toSize_def walk_2 walk_3

text \<open>The ranges of the three depths as the program computes them, when the square of
  the number of pointers does not wrap.\<close>

lemma getDepth_ranges:
  assumes "unat (LINN_SUPER_NUM_PTRS k sb) * unat (LINN_SUPER_NUM_PTRS k sb) < 2 ^ 64"
      and "LINN_INODE_DIR_BLOCKS k \<le> blk"
  shows "getDepth k sb blk =
           (let n = unat (LINN_SUPER_NUM_PTRS k sb);
                r = unat blk - unat (LINN_INODE_DIR_BLOCKS k)
            in if r < n then 1 else if r < n * n then 2 else 3)"
proof -
  have r: "unat (blk - LINN_INODE_DIR_BLOCKS k) = unat blk - unat (LINN_INODE_DIR_BLOCKS k)"
    using assms(2) by (rule unat_sub)
  have m: "unat (LINN_SUPER_NUM_PTRS k sb * LINN_SUPER_NUM_PTRS k sb)
             = unat (LINN_SUPER_NUM_PTRS k sb) * unat (LINN_SUPER_NUM_PTRS k sb)"
    using assms(1) by (simp add: unat_mult_lem[THEN iffD1])
  show ?thesis
    by (simp add: getDepth_def Let_def word_less_nat_alt r m)
qed

text \<open>
  Claim C2. The claim gives depth 2 to every index \<open>blk\<close> with
  \<open>n \<le> blk - direct < n + n\<^sup>2\<close>. The program compares \<open>blk - direct\<close> with \<open>n\<^sup>2\<close> and not
  with \<open>n + n\<^sup>2\<close>: on the sample volume (\<open>n = 256\<close>, four direct pointers) the index
  \<open>4 + 256\<^sup>2 = 65540\<close> lies in the second range of the specification and gets depth 3.
\<close>

theorem getDepth_double_range_cut_short:
  "spec_depth exConsts exSuper 65540 = 2 \<and> getDepth exConsts exSuper 65540 = 3"
  by (simp add: ex_defs off_defs spec_depth_def)

text \<open>
  Claim C1. The claim asks for the digit of \<open>blk\<close> minus the base of its depth at every
  level. For the first block of the double indirect range, \<open>blk = 4 + 256 = 260\<close>, the
  digit at the top level is 0, while the loop indexes the double indirect block at
  \<open>256\<^sup>2 div (256 + 1) = 255\<close> and goes on to read block \<open>100 + 255\<close>, at byte offset
  \<open>355 * 2048 = 727040\<close>. Only the last index of the call is a remainder.
\<close>

theorem getOffset_intermediate_slot_not_digit:
  "spec_depth exConsts exSuper 260 = 2
   \<and> spec_slot exConsts exSuper 2 2 260 = 0
   \<and> loopSlot exConsts exSuper 2 260 = 255
   \<and> getOffset exConsts exStorage exSuper exInode 260
       = (Inr 204800, [Read 61440 2048, Slot 255, Read 727040 2048, Slot 0, Slot 0])"
  by (simp add: ex_defs off_defs spec_depth_def spec_slot_def spec_base_def)

text \<open>
  Whenever a call returns an offset other than 0, it has made as many storage reads as
  the depth the program has chosen, and none for a direct block.
\<close>

lemma walk_reads_depth:
  "walk k st sb blk d offset buf = (Inr v, evs) \<Longrightarrow> v \<noteq> 0 \<Longrightarrow> storageReads evs = d"
proof (induction d arbitrary: offset buf evs)
  case 0
  then show ?case by (auto simp: storageReads_def Let_def split: if_splits)
next
  case (Suc d)
  then show ?case
    by (fastforce simp: storageReads_def Let_def split: prod.splits if_splits)
qed

lemma getOffset_reads_depth:
  assumes "getOffset k st sb ino blk = (Inr v, evs)" and "v \<noteq> 0"
  shows "storageReads evs = (if blk < LINN_INODE_DIR_BLOCKS k then 0 else getDepth k sb blk)"
  using assms
  by (auto simp: getOffset_def Let_def storageReads_def[of "[]"] walk_reads_depth
           split: if_splits sum.splits)

text \<open>
  Claim C3. The claim asks for exactly two reads in the double indirect range. The
  index 65540 is in that range by the specification, and the call returns an offset
  after three reads, because the program has given it depth 3.
\<close>

theorem getOffset_three_reads_in_double_range:
  "spec_depth exConsts exSuper 65540 = 2
   \<and> getOffset exConsts exStorage exSuper exInode 65540
       = (Inr 204800, [Read 81920 2048, Slot 0, Read 204800 2048, Slot 0,
                       Read 204800 2048, Slot 0, Slot 0])
   \<and> storageReads (snd (getOffset exConsts exStorage exSuper exInode 65540)) = 3"
  by (simp add: ex_defs off_defs spec_depth_def storageReads_def)

text \<open>
  The index of the loop can leave the buffer of \<open>n\<close> pointers. With a \<^verbatim>\<open>Size\<close> of 64 bits
  the walk for block 65540 indexes the triple indirect block at
  \<open>256\<^sup>4 div 65537 = 65535\<close>; and for the first single indirect block, \<open>blk = 4\<close>, the loop
  computes the index \<open>256 div 1 = 256\<close>, one past the end, for a value that it then
  discards.
\<close>

lemma getOffset_wide_size_out_of_bounds:
  "getOffset (exConsts\<lparr>sizeBits := 64\<rparr>) exStorage exSuper exInode 65540
     = (Inl OutOfBounds, [Read 81920 2048, Slot 65535])"
  by (simp add: ex_defs off_defs)

lemma getOffset_first_indirect_out_of_bounds:
  "getOffset exConsts exStorage exSuper exInode 4
     = (Inl OutOfBounds, [Read 40960 2048, Slot 256])"
  by (simp add: ex_defs off_defs)

text \<open>A read that fails is the last event of the loop, and the loop returns 0.\<close>

lemma walk_failed_read:
  "walk k st sb blk d offset buf = (r, evs) \<Longrightarrow> i < length evs \<Longrightarrow> evs ! i = Read off len
    \<Longrightarrow> fst (readPtrs st off len) < 0 \<Longrightarrow> r = Inr 0 \<and> Suc i = length evs"
proof (induction d arbitrary: offset buf r evs i)
  case 0
  then show ?case by (auto simp: Let_def split: if_splits)
next
  case (Suc d)
  obtain e buf' where rd: "readPtrs st offset (blockSize sb) = (e, buf')"
    by (cases "readPtrs st offset (blockSize sb)")
  show ?case
  proof (cases "e < 0")
    case True
    with Suc.prems rd show ?thesis by auto
  next
    case False
    note nf = False
    show ?thesis
    proof (cases "blk - LINN_INODE_DIR_BLOCKS k + 1 = 0")
      case True
      with Suc.prems rd nf show ?thesis by auto
    next
      case False
      note nz = False
      let ?slot = "loopSlot k sb (Suc d) blk"
      show ?thesis
      proof (cases "?slot < LINN_SUPER_NUM_PTRS k sb")
        case False
        with Suc.prems rd nf nz show ?thesis
          by (auto simp: Let_def nth_Cons split: nat.splits)
      next
        case True
        obtain r' evs' where
          w: "walk k st sb blk d (buf' (unat ?slot) * blockSize sb) buf' = (r', evs')"
          by (cases "walk k st sb blk d (buf' (unat ?slot) * blockSize sb) buf'")
        from Suc.prems(1) rd nf nz True w
        have r: "r = r'" and evs: "evs = Read offset (blockSize sb) # Slot ?slot # evs'"
          by (auto simp: Let_def)
        from Suc.prems(3,4) rd nf evs have "i \<noteq> 0"
          by (auto simp: nth_Cons split: nat.splits)
        moreover from Suc.prems(3) evs have "i \<noteq> 1"
          by (auto simp: nth_Cons split: nat.splits)
        ultimately obtain j where j: "i = Suc (Suc j)"
          by (metis One_nat_def not0_implies_Suc)
        with Suc.prems(2,3) evs have "j < length evs'" "evs' ! j = Read off len" by auto
        from Suc.IH[OF w this Suc.prems(4)] r evs j show ?thesis by simp
      qed
    qed
  qed
qed

text \<open>
  Claim C9. Whenever one of the storage reads of a call of \<^verbatim>\<open>getOffset\<close> fails (its
  result is negative), that read is the last event of the call, so that no further read
  and no indexing of the pointer block follows it, and the call returns 0 and not the
  error code of the storage.
\<close>

theorem getOffset_failed_read_returns_zero:
  assumes "getOffset k st sb ino blk = (r, evs)"
      and "i < length evs" and "evs ! i = Read off len"
      and "fst (readPtrs st off len) < 0"
  shows "r = Inr 0 \<and> Suc i = length evs"
proof (cases "blk < LINN_INODE_DIR_BLOCKS k")
  case True
  with assms(1,2) show ?thesis
    by (auto simp: getOffset_def split: sum.splits)
next
  case False
  let ?depth = "getDepth k sb blk"
  show ?thesis
  proof (cases "at (block ino) (unat (LINN_INODE_DIR_BLOCKS k) + ?depth - 1)")
    case (Inl f)
    with assms(1,2) False show ?thesis by (auto simp: getOffset_def Let_def)
  next
    case (Inr b)
    with assms(1) False
    have "walk k st sb blk ?depth (b * blockSize sb) (\<lambda>_. 0) = (r, evs)"
      by (simp add: getOffset_def Let_def)
    from walk_failed_read[OF this assms(2,3,4)] show ?thesis .
  qed
qed

text \<open>On the device whose block at 727040 cannot be read, the translation of block 260
  stops at its second read.\<close>

theorem getOffset_failed_read_returns_zero_witness:
  "fst (readPtrs exFailingStorage 727040 2048) < 0
   \<and> snd (getOffset exConsts exFailingStorage exSuper exInode 260) ! 2 = Read 727040 2048
   \<and> fst (getOffset exConsts exFailingStorage exSuper exInode 260) = Inr 0
   \<and> Suc 2 = length (snd (getOffset exConsts exFailingStorage exSuper exInode 260))"
proof -
  let ?c = "getOffset exConsts exFailingStorage exSuper exInode 260"
  have g: "?c = (Inr 0, [Read 61440 2048, Slot 255, Read 727040 2048])"
    by (simp add: ex_defs off_defs)
  have p: "?c = (fst ?c, snd ?c)" by simp
  have i: "2 < length (snd ?c)" by (simp add: g)
  have n: "snd ?c ! 2 = Read 727040 2048" by (simp add: g)
  have f: "fst (readPtrs exFailingStorage 727040 2048) < 0" by (simp add: ex_defs)
  from getOffset_failed_read_returns_zero[OF p i n f] f n show ?thesis by simp
qed

section \<open>The inode cache: results\<close>

text \<open>A \<^verbatim>\<open>Size\<close> of at least 64 bits holds every 64-bit value.\<close>

lemma toSize_id: "64 \<le> sizeBits k \<Longrightarrow> toSize k x = x"
  by (simp add: toSize_def take_bit_word_beyond_length_eq)

lemmas fs_defs = getInode_def getGroupByInode_def getGroup_def deref_def toSize_def Let_def

text \<open>\<^verbatim>\<open>getInode\<close> touches neither the file cache nor the data loaded at mount.\<close>

lemma getInode_frame:
  "getInode k fs n = (r, fs') \<Longrightarrow>
     cacheObjs fs' = cacheObjs fs \<and> root fs' = root fs \<and> storage fs' = storage fs
     \<and> super fs' = super fs \<and> groups fs' = groups fs"
  by (auto simp: getInode_def Let_def split: if_splits option.splits sum.splits prod.splits)

lemma getInode_miss_log:
  assumes "inodeNum < inodesCount (super fs)" and "inodes fs inodeNum = None"
      and "getGroupByInode fs inodeNum = Inr (Some grp)"
  shows "log (snd (getInode k fs inodeNum)) =
           log fs @ [Read (toSize k (inodeTable grp * blockSize (super fs)
                                      + inodeNum mod inodesPerGroup (super fs)))
                          (sizeofLinnInode k)]"
  using assms
  by (auto simp: getInode_def Let_def split: if_splits option.splits sum.splits prod.splits)

text \<open>
  Claim C4. For an inode number below the inode count that is not cached and whose
  group descriptor \<open>grp\<close> is found, \<^verbatim>\<open>getInode\<close> adds exactly one event to the log: a
  storage read of the size of one inode record at the offset
  \<open>inodeTable grp * blockSize + inodeNum mod inodesPerGroup\<close>. The position within the
  group is added as it is, not multiplied by the record size. The sum is computed in
  64 bits and stored in a variable of type \<^verbatim>\<open>Size\<close>.
\<close>

theorem getInode_miss_one_unscaled_read:
  assumes "inodeNum < inodesCount (super fs)" and "inodes fs inodeNum = None"
      and "getGroupByInode fs inodeNum = Inr (Some grp)"
  shows "log (snd (getInode k fs inodeNum)) =
           log fs @ [Read (toSize k (inodeTable grp * blockSize (super fs)
                                      + inodeNum mod inodesPerGroup (super fs)))
                          (sizeofLinnInode k)]"
proof -
  from assms(1) have v: "\<not> inodeNum \<ge> inodesCount (super fs)" by simp
  obtain e data where
    rd: "readInode (storage fs)
           (toSize k (inodeTable grp * blockSize (super fs)
                        + inodeNum mod inodesPerGroup (super fs)))
           (sizeofLinnInode k) = (e, data)"
    by (cases "readInode (storage fs)
           (toSize k (inodeTable grp * blockSize (super fs)
                        + inodeNum mod inodesPerGroup (super fs)))
           (sizeofLinnInode k)")
  show ?thesis
  proof (cases "e \<le> 0")
    case True
    with v assms(2,3) rd show ?thesis by (simp add: getInode_def Let_def)
  next
    case False
    with v assms(2,3) rd show ?thesis by (simp add: getInode_def Let_def)
  qed
qed

text \<open>Inode 3 of the sample volume: group 0, whose table is block 2, so the read is at
  \<open>2 * 2048 + 3\<close>.\<close>

theorem getInode_miss_one_unscaled_read_witness:
  "3 < inodesCount (super exFs) \<and> inodes exFs 3 = None
   \<and> getGroupByInode exFs 3 = Inr (Some \<lparr>inodeTable = 2\<rparr>)
   \<and> log (snd (getInode exConsts exFs 3)) = [Read 4099 128]"
proof -
  have h1: "3 < inodesCount (super exFs)" by (simp add: ex_defs)
  have h2: "inodes exFs 3 = None" by (simp add: ex_defs)
  have h3: "getGroupByInode exFs 3 = Inr (Some \<lparr>inodeTable = 2\<rparr>)"
    by (simp add: ex_defs getGroupByInode_def getGroup_def)
  have "log (snd (getInode exConsts exFs 3))
          = log exFs @ [Read (toSize exConsts (inodeTable \<lparr>inodeTable = 2\<rparr>
                * blockSize (super exFs) + 3 mod inodesPerGroup (super exFs)))
              (sizeofLinnInode exConsts)]"
    by (rule getInode_miss_one_unscaled_read[OF h1 h2 h3])
  also have "\<dots> = [Read 4099 128]" by (simp add: ex_defs toSize_def)
  finally show ?thesis using h1 h2 h3 by simp
qed

text \<open>
  Claim C5. When a call of \<^verbatim>\<open>getInode\<close> has returned an inode object, a second call for
  the same number returns the same pointer and leaves the whole state as it is: the log
  of storage reads and the arena of inode objects do not grow.
\<close>

theorem getInode_second_call_cached:
  "getInode k fs n = (Inr (Some p), fs') \<Longrightarrow> getInode k fs' n = (Inr (Some p), fs')"
  by (auto simp: getInode_def Let_def split: if_splits option.splits sum.splits prod.splits)

theorem getInode_second_call_cached_witness:
  "getInode exConsts exFs 3 = (Inr (Some 1), snd (getInode exConsts exFs 3))
   \<and> getInode exConsts (snd (getInode exConsts exFs 3)) 3
       = (Inr (Some 1), snd (getInode exConsts exFs 3))"
proof -
  have "fst (getInode exConsts exFs 3) = Inr (Some 1)" by (simp add: ex_defs fs_defs)
  then have h: "getInode exConsts exFs 3 = (Inr (Some 1), snd (getInode exConsts exFs 3))"
    by (metis prod.collapse)
  from getInode_second_call_cached[OF h] h show ?thesis by blast
qed

lemma max_div_nonzero: "(x::u64) \<noteq> 0 \<Longrightarrow> 0xFFFFFFFFFFFFFFFF div x \<noteq> 0"
proof -
  assume "x \<noteq> 0"
  have "x \<le> - 1" by simp
  also have "(- 1 :: u64) = 0xFFFFFFFFFFFFFFFF" by simp
  finally have "unat x \<le> unat (0xFFFFFFFFFFFFFFFF :: u64)" by (simp only: word_le_nat_alt)
  moreover have "0 < unat x" using \<open>x \<noteq> 0\<close> by (simp add: unat_gt_0)
  ultimately have "0 < unat (0xFFFFFFFFFFFFFFFF :: u64) div unat x"
    by (simp only: div_greater_zero_iff)
  then have "unat ((0xFFFFFFFFFFFFFFFF :: u64) div x) \<noteq> 0" by (simp only: unat_div)
  then show ?thesis by (metis unat_0)
qed

text \<open>
  Claim C10. Let the inode count be positive, inode 0 not cached, and the number of
  inodes per group not zero. The test of the inode number lets 0 pass, and the group
  number is \<open>(0 - 1) div inodesPerGroup\<close> in 64 bits, that is
  \<open>(2\<^sup>6\<^sup>4 - 1) div inodesPerGroup\<close>, which is never group 0. \<^verbatim>\<open>getInode 0\<close> answers
  not-found with the state untouched exactly when there is no group descriptor at that
  index; when there is one, it goes on to read from storage.
\<close>

theorem getInode_zero_group_wraps:
  assumes "0 < inodesCount (super fs)" and "inodes fs 0 = None"
      and "inodesPerGroup (super fs) \<noteq> 0"
  shows "getGroupByInode fs 0
           = Inr (getGroup fs (0xFFFFFFFFFFFFFFFF div inodesPerGroup (super fs)))
       \<and> 0xFFFFFFFFFFFFFFFF div inodesPerGroup (super fs) \<noteq> 0
       \<and> (getInode k fs 0 = (Inr None, fs)
            \<longleftrightarrow> getGroup fs (0xFFFFFFFFFFFFFFFF div inodesPerGroup (super fs)) = None)"
proof -
  let ?g = "0xFFFFFFFFFFFFFFFF div inodesPerGroup (super fs)"
  have e: "(0::u64) - 1 = 0xFFFFFFFFFFFFFFFF" by simp
  have g: "getGroupByInode fs 0 = Inr (getGroup fs ?g)"
    unfolding getGroupByInode_def e using assms(3) by simp
  have nz: "?g \<noteq> 0" using assms(3) by (rule max_div_nonzero)
  have v: "\<not> 0 \<ge> inodesCount (super fs)" using assms(1) by (simp add: word_greater_zero_iff)
  have r: "getInode k fs 0 = (Inr None, fs) \<longleftrightarrow> getGroup fs ?g = None"
  proof (cases "getGroup fs ?g")
    case None
    with assms(2) v g show ?thesis by (simp add: getInode_def)
  next
    case (Some grp)
    from assms(1,2) g Some have "log (snd (getInode k fs 0)) \<noteq> log fs"
      by (simp add: getInode_miss_log)
    with Some show ?thesis by auto
  qed
  from g nz r show ?thesis by blast
qed

text \<open>On the sample volume the index is \<open>(2\<^sup>6\<^sup>4 - 1) div 32\<close>, far beyond its two groups.\<close>

theorem getInode_zero_group_wraps_witness:
  "0 < inodesCount (super exFs) \<and> inodes exFs 0 = None \<and> inodesPerGroup (super exFs) \<noteq> 0
   \<and> getGroupByInode exFs 0 = Inr (getGroup exFs 0x7FFFFFFFFFFFFFF)
   \<and> getGroup exFs 0x7FFFFFFFFFFFFFF = None
   \<and> getInode exConsts exFs 0 = (Inr None, exFs)"
proof -
  have h1: "0 < inodesCount (super exFs)" by (simp add: ex_defs)
  have h2: "inodes exFs 0 = None" by (simp add: ex_defs)
  have h3: "inodesPerGroup (super exFs) \<noteq> 0" by (simp add: ex_defs)
  have d: "0xFFFFFFFFFFFFFFFF div inodesPerGroup (super exFs) = 0x7FFFFFFFFFFFFFF"
    by (simp add: ex_defs)
  have n: "getGroup exFs 0x7FFFFFFFFFFFFFF = None" by (simp add: ex_defs getGroup_def)
  from getInode_zero_group_wraps[OF h1 h2 h3, of exConsts] h1 h2 h3 n show ?thesis
    unfolding d by simp
qed


section \<open>The file cache: results\<close>

text \<open>
  The results of this section hold for every \<^verbatim>\<open>insertFileCache\<close>. What \<^verbatim>\<open>resolve\<close> does
  before it calls \<^verbatim>\<open>insertFileCache\<close> leaves the file cache and the root as they are; so
  either it returns without a node and the cache is untouched, or the current node is a
  directory and the node and the state are those that \<^verbatim>\<open>insertFileCache\<close> returns.
\<close>

lemma resolve_cases:
  assumes "resolve ins k fs c name = (r, fs')"
  shows "(cacheObjs fs' = cacheObjs fs \<and> root fs' = root fs \<and> (\<forall>d. r \<noteq> Inr (Some d)))
         \<or> (\<exists>f fs2 d. getType (cfile (cacheObjs fs ! c)) = DirectoryFile
                \<and> cacheObjs fs2 = cacheObjs fs \<and> root fs2 = root fs
                \<and> ins fs2 f name = (d, fs') \<and> r = Inr (Some d))"
proof (cases "getType (cfile (cacheObjs fs ! c)) \<noteq> DirectoryFile")
  case True
  with assms show ?thesis by (auto simp: resolve_def)
next
  case False
  note dir = False
  let ?dp = "fileInode (cfile (cacheObjs fs ! c))"
  show ?thesis
  proof (cases "deref (inodeObjs fs) ?dp")
    case (Inl f)
    with assms dir show ?thesis by (auto simp: resolve_def Let_def)
  next
    case (Inr dirInode)
    note dr = Inr
    let ?fs1 = "fs\<lparr>log := log fs @ [GetEntry ?dp name]\<rparr>"
    show ?thesis
    proof (cases "getEntry (storage fs) dirInode name")
      case None
      with assms dir dr show ?thesis by (auto simp: resolve_def Let_def)
    next
      case (Some entry)
      note ge = Some
      obtain ri fs2 where gi: "getInode k ?fs1 (inode entry) = (ri, fs2)"
        by (cases "getInode k ?fs1 (inode entry)")
      from getInode_frame[OF gi] have fr: "cacheObjs fs2 = cacheObjs fs" "root fs2 = root fs"
        by simp_all
      show ?thesis
      proof (cases ri)
        case (Inl f)
        with assms dir dr ge gi fr show ?thesis by (auto simp: resolve_def Let_def)
      next
        case (Inr po)
        note ri = Inr
        show ?thesis
        proof (cases po)
          case None
          with assms dir dr ge gi fr ri show ?thesis by (auto simp: resolve_def Let_def)
        next
          case (Some p)
          note po = Some
          show ?thesis
          proof (cases "deref (inodeObjs fs2) p")
            case (Inl f)
            with assms dir dr ge gi fr ri po show ?thesis
              by (auto simp: resolve_def Let_def)
          next
            case (Inr ino)
            note di = Inr
            show ?thesis
            proof (cases "itype ino")
              case RegularFile
              obtain d fs3 where i: "ins fs2 (LinnFile p) name = (d, fs3)"
                by (cases "ins fs2 (LinnFile p) name")
              with assms dir dr ge gi ri po di RegularFile
              have "r = Inr (Some d)" "fs' = fs3" by (auto simp: resolve_def Let_def)
              with i fr dir show ?thesis by blast
            next
              case DirectoryFile
              obtain d fs3 where i: "ins fs2 (LinnDirectory p) name = (d, fs3)"
                by (cases "ins fs2 (LinnDirectory p) name")
              with assms dir dr ge gi ri po di DirectoryFile
              have "r = Inr (Some d)" "fs' = fs3" by (auto simp: resolve_def Let_def)
              with i fr dir show ?thesis by blast
            next
              case OtherFile
              with assms dir dr ge gi fr ri po di show ?thesis
                by (auto simp: resolve_def Let_def)
            qed
          qed
        qed
      qed
    qed
  qed
qed

lemma resolve_fail_cache:
  "resolve ins k fs c name = (Inr None, fs') \<Longrightarrow> cacheObjs fs' = cacheObjs fs"
  using resolve_cases[of ins k fs c name "Inr None" fs'] by auto

text \<open>A property of the state that every miss of the loop preserves holds after the
  loop.\<close>

lemma lookupLoop_preserves:
  assumes step: "\<And>fs c name r fs'. P fs \<Longrightarrow> entries (cacheObjs fs ! c) name = None
                   \<Longrightarrow> resolve ins k fs c name = (r, fs') \<Longrightarrow> P fs'"
      and "lookupLoop ins k fs c path = (r, fs')" and "P fs"
  shows "P fs'"
  using assms(2,3)
proof (induction path arbitrary: fs c)
  case Nil
  then show ?case by simp
next
  case (Cons name rest)
  show ?case
  proof (cases "c < length (cacheObjs fs)")
    case False
    with Cons.prems show ?thesis by simp
  next
    case True
    note v = True
    show ?thesis
    proof (cases "entries (cacheObjs fs ! c) name")
      case (Some d)
      with Cons.prems v have "lookupLoop ins k fs d rest = (r, fs')" by simp
      from Cons.IH[OF this Cons.prems(2)] show ?thesis .
    next
      case None
      obtain r1 fs1 where rs: "resolve ins k fs c name = (r1, fs1)"
        by (cases "resolve ins k fs c name")
      from step[OF Cons.prems(2) None rs] have p1: "P fs1" .
      show ?thesis
      proof (cases "\<exists>d. r1 = Inr (Some d)")
        case True
        then obtain d where "r1 = Inr (Some d)" by blast
        with Cons.prems v None rs have "lookupLoop ins k fs1 d rest = (r, fs')" by simp
        from Cons.IH[OF this p1] show ?thesis .
      next
        case False
        with Cons.prems v None rs have "fs' = fs1"
          by (auto split: sum.splits option.splits)
        with p1 show ?thesis by simp
      qed
    qed
  qed
qed

text \<open>A lookup of a longer path continues where the lookup of its prefix ended.\<close>

lemma lookupLoop_append:
  "lookupLoop ins k fs c xs = (Inr (Some m), fs1)
    \<Longrightarrow> lookupLoop ins k fs c (xs @ ys) = lookupLoop ins k fs1 m ys"
proof (induction xs arbitrary: fs c)
  case Nil
  then show ?case by simp
next
  case (Cons name rest)
  from Cons.prems have v: "c < length (cacheObjs fs)" by (auto split: if_splits)
  show ?case
  proof (cases "entries (cacheObjs fs ! c) name")
    case (Some d)
    with Cons.prems v have "lookupLoop ins k fs d rest = (Inr (Some m), fs1)" by simp
    from Cons.IH[OF this] Some v show ?thesis by simp
  next
    case None
    obtain r1 fs2 where rs: "resolve ins k fs c name = (r1, fs2)"
      by (cases "resolve ins k fs c name")
    with Cons.prems v None obtain d where d: "r1 = Inr (Some d)"
      and l: "lookupLoop ins k fs2 d rest = (Inr (Some m), fs1)"
      by (auto split: sum.splits option.splits)
    from Cons.IH[OF l] None v rs d show ?thesis by simp
  qed
qed

text \<open>A lookup that fails has resolved a prefix of the path and then met a component
  for which the node reached has no entry, before the call and after it.\<close>

lemma lookupLoop_fail:
  "lookupLoop ins k fs c path = (Inr None, fs')
    \<Longrightarrow> \<exists>pre name rest m fs1. path = pre @ name # rest
          \<and> lookupLoop ins k fs c pre = (Inr (Some m), fs1)
          \<and> cacheObjs fs' = cacheObjs fs1
          \<and> m < length (cacheObjs fs') \<and> entries (cacheObjs fs' ! m) name = None"
proof (induction path arbitrary: fs c)
  case Nil
  then show ?case by simp
next
  case (Cons name0 rest0)
  from Cons.prems have v: "c < length (cacheObjs fs)" by (auto split: if_splits)
  show ?case
  proof (cases "entries (cacheObjs fs ! c) name0")
    case (Some d)
    with Cons.prems v have "lookupLoop ins k fs d rest0 = (Inr None, fs')" by simp
    from Cons.IH[OF this] obtain pre name rest m fs1 where
      p: "rest0 = pre @ name # rest" "lookupLoop ins k fs d pre = (Inr (Some m), fs1)"
         "cacheObjs fs' = cacheObjs fs1" "m < length (cacheObjs fs')"
         "entries (cacheObjs fs' ! m) name = None" by blast
    from p(2) Some v have "lookupLoop ins k fs c (name0 # pre) = (Inr (Some m), fs1)"
      by simp
    moreover from p(1) have "name0 # rest0 = (name0 # pre) @ name # rest" by simp
    ultimately show ?thesis using p(3,4,5) by blast
  next
    case None
    obtain r1 fs2 where rs: "resolve ins k fs c name0 = (r1, fs2)"
      by (cases "resolve ins k fs c name0")
    show ?thesis
    proof (cases "\<exists>d. r1 = Inr (Some d)")
      case True
      then obtain d where d: "r1 = Inr (Some d)" by blast
      with Cons.prems v None rs have "lookupLoop ins k fs2 d rest0 = (Inr None, fs')"
        by simp
      from Cons.IH[OF this] obtain pre name rest m fs1 where
        p: "rest0 = pre @ name # rest" "lookupLoop ins k fs2 d pre = (Inr (Some m), fs1)"
           "cacheObjs fs' = cacheObjs fs1" "m < length (cacheObjs fs')"
           "entries (cacheObjs fs' ! m) name = None" by blast
      from p(2) None v rs d
      have "lookupLoop ins k fs c (name0 # pre) = (Inr (Some m), fs1)" by simp
      moreover from p(1) have "name0 # rest0 = (name0 # pre) @ name # rest" by simp
      ultimately show ?thesis using p(3,4,5) by blast
    next
      case False
      with Cons.prems v None rs have f: "r1 = Inr None" "fs' = fs2"
        by (auto split: sum.splits option.splits)
      from resolve_fail_cache[OF rs[unfolded f(1)]] f(2)
      have c: "cacheObjs fs' = cacheObjs fs" by simp
      have "name0 # rest0 = [] @ name0 # rest0" by simp
      moreover have "lookupLoop ins k fs c [] = (Inr (Some c), fs)" by simp
      ultimately show ?thesis using c v None by metis
    qed
  qed
qed

text \<open>
  The insertion of the specification depends on the current node, so no function of the
  state, the file and the name alone performs it for every current node.
\<close>

lemma spec_insertFileCache_needs_current_node:
  "\<not> (\<exists>ins. \<forall>fs c f name. ins fs f name = spec_insertFileCache fs c f name)"
proof
  assume "\<exists>ins. \<forall>fs c f name. ins fs f name = spec_insertFileCache fs c f name"
  then obtain ins where
    a: "\<And>fs c f name. ins fs f name = spec_insertFileCache fs c f name" by blast
  let ?nd = "\<lparr>cfile = LinnDirectory 0, entries = Map.empty\<rparr>"
  let ?fs = "exFs\<lparr>cacheObjs := [?nd, ?nd]\<rparr>"
  from a[of ?fs "LinnFile 0" "''x''" 0] a[of ?fs "LinnFile 0" "''x''" 1]
  have "spec_insertFileCache ?fs 0 (LinnFile 0) ''x''
          = spec_insertFileCache ?fs 1 (LinnFile 0) ''x''" by simp
  then have "entries (cacheObjs (snd (spec_insertFileCache ?fs 0 (LinnFile 0) ''x'')) ! 0) ''x''
           = entries (cacheObjs (snd (spec_insertFileCache ?fs 1 (LinnFile 0) ''x'')) ! 0) ''x''"
    by simp
  then show False by (simp add: spec_insertFileCache_def Let_def exFs_def)
qed





text \<open>
  Claim C6. A call of \<^verbatim>\<open>getInode\<close> that answers not-found (the number is out of range,
  there is no group descriptor, or the read fails) leaves the inode cache and the file
  cache as they were. A call of \<^verbatim>\<open>lookupFile\<close> that answers not-found has resolved some
  prefix \<open>pre\<close> of the path to a node \<open>m\<close> and failed at the next component \<open>name\<close>: the
  file cache it leaves is the one left by the lookup of \<open>pre\<close>, and in it \<open>m\<close> has no
  child for \<open>name\<close>.
\<close>

theorem failed_calls_insert_nothing:
  "(getInode k fs n = (Inr None, fs1)
      \<longrightarrow> inodes fs1 = inodes fs \<and> cacheObjs fs1 = cacheObjs fs)
   \<and> (lookupFile ins k fs path = (Inr None, fs2)
      \<longrightarrow> (\<exists>pre name rest m fs'. path = pre @ name # rest
             \<and> lookupFile ins k fs pre = (Inr (Some m), fs')
             \<and> cacheObjs fs2 = cacheObjs fs'
             \<and> m < length (cacheObjs fs2) \<and> entries (cacheObjs fs2 ! m) name = None))"
proof (intro conjI impI)
  assume g: "getInode k fs n = (Inr None, fs1)"
  then show "inodes fs1 = inodes fs"
    by (auto simp: getInode_def Let_def
             split: if_splits option.splits sum.splits prod.splits)
  from getInode_frame[OF g] show "cacheObjs fs1 = cacheObjs fs" by simp
next
  assume "lookupFile ins k fs path = (Inr None, fs2)"
  then have "lookupLoop ins k fs (root fs) path = (Inr None, fs2)"
    by (simp add: lookupFile_def)
  from lookupLoop_fail[OF this] show "\<exists>pre name rest m fs'. path = pre @ name # rest
             \<and> lookupFile ins k fs pre = (Inr (Some m), fs')
             \<and> cacheObjs fs2 = cacheObjs fs'
             \<and> m < length (cacheObjs fs2) \<and> entries (cacheObjs fs2 ! m) name = None"
    by (simp add: lookupFile_def)
qed

text \<open>Inode 5 of the sample volume cannot be read, and \<^verbatim>\<open>/bin\<close> has no entry
  \<^verbatim>\<open>nope\<close>.\<close>

theorem failed_calls_insert_nothing_witness:
  "fst (getInode exConsts exFs 5) = Inr None
   \<and> fst (lookupFile exInsertFileCache exConsts exFs [''bin'', ''nope'']) = Inr None
   \<and> inodes (snd (getInode exConsts exFs 5)) = inodes exFs
   \<and> cacheObjs (snd (getInode exConsts exFs 5)) = cacheObjs exFs
   \<and> (\<exists>pre name rest m fs'. [''bin'', ''nope''] = pre @ name # rest
        \<and> lookupFile exInsertFileCache exConsts exFs pre = (Inr (Some m), fs')
        \<and> cacheObjs (snd (lookupFile exInsertFileCache exConsts exFs [''bin'', ''nope'']))
            = cacheObjs fs'
        \<and> m < length (cacheObjs
                 (snd (lookupFile exInsertFileCache exConsts exFs [''bin'', ''nope''])))
        \<and> entries (cacheObjs
                 (snd (lookupFile exInsertFileCache exConsts exFs [''bin'', ''nope''])) ! m)
            name = None)"
proof -
  let ?l = "lookupFile exInsertFileCache exConsts exFs [''bin'', ''nope'']"
  have g: "fst (getInode exConsts exFs 5) = Inr None" by (simp add: ex_defs fs_defs)
  then have g': "getInode exConsts exFs 5 = (Inr None, snd (getInode exConsts exFs 5))"
    by (simp add: prod_eq_iff)
  have l: "fst ?l = Inr None" by code_simp
  then have l': "?l = (Inr None, snd ?l)" by (simp add: prod_eq_iff)
  from failed_calls_insert_nothing[of exConsts exFs 5 "snd (getInode exConsts exFs 5)"
         exInsertFileCache "[''bin'', ''nope'']" "snd ?l"]
       g' l' g l
  show ?thesis by blast
qed

text \<open>
  In a file cache where only directories have children, a node that wraps a file has
  no entry for any name. Lookups keep the cache that way, with a directory at the root,
  whenever \<^verbatim>\<open>insertFileCache\<close> does, as the sample one does.
\<close>

lemma leaf_has_no_entry:
  assumes "filesAreLeaves fs" and "c < length (cacheObjs fs)"
      and "getType (cfile (cacheObjs fs ! c)) \<noteq> DirectoryFile"
  shows "entries (cacheObjs fs ! c) name = None"
  using assms by (auto simp: filesAreLeaves_def list_all_length)

lemma wellRooted_cong:
  "cacheObjs fs' = cacheObjs fs \<Longrightarrow> root fs' = root fs \<Longrightarrow> wellRooted fs' = wellRooted fs"
  by (simp add: wellRooted_def filesAreLeaves_def)

lemma resolve_wellRooted:
  assumes callee: "\<And>fs f name. wellRooted fs \<Longrightarrow> wellRooted (snd (ins fs f name))"
      and "resolve ins k fs c name = (r, fs')" and "wellRooted fs"
  shows "wellRooted fs'"
  using resolve_cases[OF assms(2)]
proof (elim disjE exE conjE)
  assume a: "cacheObjs fs' = cacheObjs fs" "root fs' = root fs"
  from wellRooted_cong[OF a] assms(3) show ?thesis by blast
next
  fix f fs2 d
  assume a: "cacheObjs fs2 = cacheObjs fs" "root fs2 = root fs"
    and i: "ins fs2 f name = (d, fs')"
  from wellRooted_cong[OF a] assms(3) have "wellRooted fs2" by blast
  from callee[OF this, of f name] i show ?thesis by simp
qed

lemma lookupFile_wellRooted:
  assumes callee: "\<And>fs f name. wellRooted fs \<Longrightarrow> wellRooted (snd (ins fs f name))"
      and "lookupFile ins k fs path = (r, fs')" and "wellRooted fs"
  shows "wellRooted fs'"
proof (rule lookupLoop_preserves[where P = wellRooted and ins = ins and k = k])
  show "lookupLoop ins k fs (root fs) path = (r, fs')"
    using assms(2) by (simp add: lookupFile_def)
  show "wellRooted fs" by (rule assms(3))
next
  fix fs c name r fs'
  assume a: "wellRooted fs" and b: "resolve ins k fs c name = (r, fs')"
  show "wellRooted fs'" by (rule resolve_wellRooted[OF callee b a])
qed

lemma lookupFile_file_node_has_no_entry:
  assumes callee: "\<And>fs f name. wellRooted fs \<Longrightarrow> wellRooted (snd (ins fs f name))"
      and "wellRooted fs" and "lookupFile ins k fs pre = (Inr (Some c), fs1)"
      and "c < length (cacheObjs fs1)"
      and "getType (cfile (cacheObjs fs1 ! c)) \<noteq> DirectoryFile"
  shows "entries (cacheObjs fs1 ! c) name = None"
proof -
  from lookupFile_wellRooted[OF callee assms(3,2)] have "filesAreLeaves fs1"
    by (simp add: wellRooted_def)
  from leaf_has_no_entry[OF this assms(4,5)] show ?thesis .
qed

lemma exInsertFileCache_wellRooted:
  assumes "wellRooted fs"
  shows "wellRooted (snd (exInsertFileCache fs f name))"
proof -
  let ?P = "\<lambda>nd. getType (cfile nd) = DirectoryFile \<or> entries nd = Map.empty"
  let ?parent = "(cacheObjs fs ! root fs)
                   \<lparr>entries := (entries (cacheObjs fs ! root fs))(name \<mapsto> length (cacheObjs fs))\<rparr>"
  let ?new = "\<lparr>cfile = f, entries = Map.empty\<rparr>"
  let ?objs = "(cacheObjs fs)[root fs := ?parent] @ [?new]"
  from assms have l: "\<forall>x\<in>set (cacheObjs fs). ?P x"
    and v: "root fs < length (cacheObjs fs)"
    and d: "getType (cfile (cacheObjs fs ! root fs)) = DirectoryFile"
    by (simp_all add: wellRooted_def filesAreLeaves_def list_all_iff)
  have s: "snd (exInsertFileCache fs f name) = fs\<lparr>cacheObjs := ?objs\<rparr>"
    by (simp add: exInsertFileCache_def Let_def)
  have pp: "?P ?parent" using d by simp
  have "\<forall>x\<in>set ?objs. ?P x"
  proof
    fix x assume "x \<in> set ?objs"
    then have "x = ?new \<or> x \<in> set ((cacheObjs fs)[root fs := ?parent])" by auto
    then show "?P x"
    proof
      assume "x = ?new"
      then show ?thesis by simp
    next
      assume "x \<in> set ((cacheObjs fs)[root fs := ?parent])"
      then have "x \<in> insert ?parent (set (cacheObjs fs))"
        by (rule set_update_subset_insert[THEN subsetD])
      with pp l show ?thesis by blast
    qed
  qed
  moreover have "?objs ! root fs = ?parent" using v by (simp add: nth_append)
  ultimately show ?thesis using v d
    by (simp add: s wellRooted_def filesAreLeaves_def list_all_iff del: set_append)
qed

text \<open>
  Claim C8. Let the lookup of the components \<open>pre\<close> end at the node \<open>c\<close>, and let \<open>c\<close> wrap
  an object that is not a directory and have no cached entry for the next component
  \<open>name\<close> (a node that wraps a file has none in a cache kept as in the lemmas above).
  Then the lookup of \<open>pre @ name # rest\<close> answers not-found, and the state it leaves is
  the one reached after \<open>pre\<close>: no directory entry is read, no inode is resolved, and the
  components of \<open>rest\<close> are not looked at.
\<close>

theorem lookupFile_stops_at_file:
  assumes "lookupFile ins k fs pre = (Inr (Some c), fs1)"
      and "c < length (cacheObjs fs1)"
      and "getType (cfile (cacheObjs fs1 ! c)) \<noteq> DirectoryFile"
      and "entries (cacheObjs fs1 ! c) name = None"
  shows "lookupFile ins k fs (pre @ name # rest) = (Inr None, fs1)"
proof -
  from assms(1) have "lookupLoop ins k fs (root fs) pre = (Inr (Some c), fs1)"
    by (simp add: lookupFile_def)
  from lookupLoop_append[OF this]
  have "lookupFile ins k fs (pre @ name # rest) = lookupLoop ins k fs1 c (name # rest)"
    by (simp add: lookupFile_def)
  also from assms(2,3,4) have "\<dots> = (Inr None, fs1)" by (simp add: resolve_def)
  finally show ?thesis .
qed

text \<open>On the sample volume \<^verbatim>\<open>/motd\<close> is a regular file (node 1 after its lookup), and the
  lookup of \<^verbatim>\<open>/motd/x/y\<close> ends there.\<close>

theorem lookupFile_stops_at_file_witness:
  "fst (lookupFile exInsertFileCache exConsts exFs [''motd'']) = Inr (Some 1)
   \<and> 1 < length (cacheObjs (snd (lookupFile exInsertFileCache exConsts exFs [''motd''])))
   \<and> getType (cfile (cacheObjs
                 (snd (lookupFile exInsertFileCache exConsts exFs [''motd''])) ! 1))
       \<noteq> DirectoryFile
   \<and> entries (cacheObjs (snd (lookupFile exInsertFileCache exConsts exFs [''motd''])) ! 1)
         ''x'' = None
   \<and> lookupFile exInsertFileCache exConsts exFs [''motd'', ''x'', ''y'']
       = (Inr None, snd (lookupFile exInsertFileCache exConsts exFs [''motd'']))"
proof -
  let ?fs1 = "snd (lookupFile exInsertFileCache exConsts exFs [''motd''])"
  have f: "fst (lookupFile exInsertFileCache exConsts exFs [''motd'']) = Inr (Some 1)"
    by code_simp
  then have h1: "lookupFile exInsertFileCache exConsts exFs [''motd'']
                   = (Inr (Some 1), ?fs1)"
    by (simp add: prod_eq_iff)
  have h2: "1 < length (cacheObjs ?fs1)" by code_simp
  have h3: "getType (cfile (cacheObjs ?fs1 ! 1)) \<noteq> DirectoryFile" by code_simp
  have h4: "entries (cacheObjs ?fs1 ! 1) ''x'' = None" by code_simp
  from lookupFile_stops_at_file[OF h1 h2 h3 h4, of "[''y'']"] f h2 h3 h4
  show ?thesis by simp
qed

end
